theory Spec2Isabelle
  imports Main "HOL-Library.Sublist"
begin

section \<open>Strings\<close>

text \<open>
  A Python \<open>str\<close> is a sequence of Unicode code points, and \<open>len\<close>, slicing and the
  regular expressions of \<open>re\<close> work on code points.  A string is therefore a list of
  code points; \<open>u\<close> writes an ASCII literal.
\<close>

type_synonym ustring = "nat list"

definition u :: "string \<Rightarrow> ustring" where
  "u s = map of_char s"

definition newline :: nat where "newline = 10"

text \<open>The glyphs of the transcript format, by code point.\<close>

definition claude_marker :: nat where "claude_marker = 9210"   \<comment> \<open>U+23FA\<close>
definition footer_glyph :: nat where "footer_glyph = 9151"     \<comment> \<open>U+23BF\<close>
definition thinking_glyph :: nat where "thinking_glyph = 10043" \<comment> \<open>U+273B\<close>
definition ellipsis_glyph :: nat where "ellipsis_glyph = 8230"  \<comment> \<open>U+2026\<close>
definition prompt_glyph :: nat where "prompt_glyph = 10095"     \<comment> \<open>U+276F\<close>
definition arrow_glyph :: nat where "arrow_glyph = 8594"        \<comment> \<open>U+2192\<close>

text \<open>
  \<open>str.isspace\<close>, which is also the class \<open>\s\<close> of \<open>re\<close> on \<open>str\<close> patterns and what
  \<open>strip\<close>, \<open>lstrip\<close> and \<open>rstrip\<close> remove.
\<close>

definition isspace :: "nat \<Rightarrow> bool" where
  "isspace c \<longleftrightarrow>
     (9 \<le> c \<and> c \<le> 13) \<or> (28 \<le> c \<and> c \<le> 32) \<or> c = 133 \<or> c = 160 \<or> c = 5760 \<or>
     (8192 \<le> c \<and> c \<le> 8202) \<or> c = 8232 \<or> c = 8233 \<or> c = 8239 \<or> c = 8287 \<or>
     c = 12288"

definition lstrip :: "ustring \<Rightarrow> ustring" where
  "lstrip s = dropWhile isspace s"

definition rstrip :: "ustring \<Rightarrow> ustring" where
  "rstrip s = rev (dropWhile isspace (rev s))"

definition strip :: "ustring \<Rightarrow> ustring" where
  "strip s = lstrip (rstrip s)"

section \<open>Line cleaner\<close>

text \<open>The 32 code points of \<open>BOX_CHARS\<close>.\<close>

definition BOX_CHARS :: "nat list" where
  "BOX_CHARS =
     [9581, 9582, 9584, 9583, 9474, 9472, 9484, 9488, 9492, 9496, 9500, 9508, 9516, 9524,
      9532, 9552, 9553, 9556, 9559, 9562, 9565, 9568, 9571, 9574, 9577, 9580, 9616, 9627,
      9628, 9612, 9629, 9624]"

definition remove_box_chars :: "ustring \<Rightarrow> ustring" where
  "remove_box_chars text = filter (\<lambda>c. c \<notin> set BOX_CHARS) text"

text \<open>
  \<open>re.sub(r'\x1b\[[0-9;]*[mK]', '', text)\<close>.  \<open>ansi_match s\<close> is the rest of \<open>s\<close> behind a
  match that starts at the head of \<open>s\<close>: ESC, \<open>[\<close>, the longest run of ASCII digits and
  semicolons, then \<open>m\<close> or \<open>K\<close> (neither is in the run's class, so a shorter run never
  matches).  The substitution scans from the left and resumes behind each match.
\<close>

definition ansi_param :: "nat \<Rightarrow> bool" where
  "ansi_param c \<longleftrightarrow> (48 \<le> c \<and> c \<le> 57) \<or> c = 59"

definition ansi_match :: "ustring \<Rightarrow> ustring option" where
  "ansi_match s =
     (case s of
        e # b # t \<Rightarrow>
          if e = 27 \<and> b = 91 then
            (case dropWhile ansi_param t of
               f # rest \<Rightarrow> if f = 109 \<or> f = 75 then Some rest else None
             | [] \<Rightarrow> None)
          else None
      | _ \<Rightarrow> None)"

lemma ansi_match_length: "ansi_match s = Some rest \<Longrightarrow> length rest < length s"
proof -
  assume a: "ansi_match s = Some rest"
  then obtain e b t where s: "s = e # b # t"
    by (auto simp: ansi_match_def split: list.splits)
  from a s obtain f where "dropWhile ansi_param t = f # rest"
    by (auto simp: ansi_match_def split: list.splits if_splits)
  then have "length (f # rest) \<le> length t"
    by (metis length_dropWhile_le)
  with s show ?thesis by simp
qed

function remove_ansi_codes :: "ustring \<Rightarrow> ustring" where
  "remove_ansi_codes [] = []"
| "remove_ansi_codes (c # cs) =
     (case ansi_match (c # cs) of
        Some rest \<Rightarrow> remove_ansi_codes rest
      | None \<Rightarrow> c # remove_ansi_codes cs)"
  by pat_completeness auto
termination
  by (relation "measure length") (auto dest: ansi_match_length)

definition replace_ellipsis :: "ustring \<Rightarrow> ustring" where
  "replace_ellipsis s = concat (map (\<lambda>c. if c = ellipsis_glyph then u ''...'' else [c]) s)"

definition clean_line :: "ustring \<Rightarrow> ustring" where
  "clean_line line =
     rstrip (replace_ellipsis
       (filter (\<lambda>c. c \<noteq> thinking_glyph)
         (filter (\<lambda>c. c \<noteq> footer_glyph)
           (filter (\<lambda>c. c \<noteq> claude_marker)
             (remove_box_chars (remove_ansi_codes line))))))"

section \<open>Splitting and joining\<close>

text \<open>\<open>text.split('\n')\<close>: never empty, the empty string gives one empty line.\<close>

fun split_nl :: "ustring \<Rightarrow> ustring list" where
  "split_nl [] = [[]]"
| "split_nl (c # cs) =
     (if c = newline then [] # split_nl cs
      else (case split_nl cs of l # ls \<Rightarrow> (c # l) # ls | [] \<Rightarrow> [[c]]))"

text \<open>\<open>'\n'.join(lines)\<close>.\<close>

fun join_nl :: "ustring list \<Rightarrow> ustring" where
  "join_nl [] = []"
| "join_nl [l] = l"
| "join_nl (l # ls) = l @ newline # join_nl ls"

text \<open>\<open>s.startswith(p)\<close> and \<open>p in s\<close>.\<close>

definition startswith :: "ustring \<Rightarrow> ustring \<Rightarrow> bool" where
  "startswith s p \<longleftrightarrow> take (length p) s = p"

fun contains :: "ustring \<Rightarrow> ustring \<Rightarrow> bool" where
  "contains [] p \<longleftrightarrow> p = []"
| "contains (c # cs) p \<longleftrightarrow> startswith (c # cs) p \<or> contains cs p"

section \<open>Line numbers\<close>

text \<open>
  The class \<open>\d\<close> of \<open>re\<close> on a \<open>str\<close> pattern is \<open>str.isdecimal\<close>: the decimal digits
  of every script (Unicode 14, the table of CPython 3.11), as ranges of code points.
\<close>

definition decimal_ranges :: "(nat \<times> nat) list" where
  "decimal_ranges =
     [(48, 57), (1632, 1641), (1776, 1785), (1984, 1993), (2406, 2415), (2534, 2543),
      (2662, 2671), (2790, 2799), (2918, 2927), (3046, 3055), (3174, 3183), (3302, 3311),
      (3430, 3439), (3558, 3567), (3664, 3673), (3792, 3801), (3872, 3881), (4160, 4169),
      (4240, 4249), (6112, 6121), (6160, 6169), (6470, 6479), (6608, 6617), (6784, 6793),
      (6800, 6809), (6992, 7001), (7088, 7097), (7232, 7241), (7248, 7257), (42528, 42537),
      (43216, 43225), (43264, 43273), (43472, 43481), (43504, 43513), (43600, 43609),
      (44016, 44025), (65296, 65305), (66720, 66729), (68912, 68921), (69734, 69743),
      (69872, 69881), (69942, 69951), (70096, 70105), (70384, 70393), (70736, 70745),
      (70864, 70873), (71248, 71257), (71360, 71369), (71472, 71481), (71904, 71913),
      (72016, 72025), (72784, 72793), (73040, 73049), (73120, 73129), (92768, 92777),
      (92864, 92873), (93008, 93017), (120782, 120831), (123200, 123209), (123632, 123641),
      (125264, 125273), (130032, 130041)]"

definition isdecimal :: "nat \<Rightarrow> bool" where
  "isdecimal c \<longleftrightarrow> list_ex (\<lambda>(lo, hi). lo \<le> c \<and> c \<le> hi) decimal_ranges"

text \<open>
  \<open>re.sub(r'^\s*\d+\<rightarrow>', '', text, flags=re.MULTILINE)\<close>.  \<open>lineno_match s\<close> is the rest
  of \<open>s\<close> behind a match at the head of \<open>s\<close>: the longest run of whitespace (which may
  run over line ends, \<open>\s\<close> matches them), the longest run of decimal digits, at least
  one, and the arrow.  No whitespace is a digit and no digit is the arrow, so shorter runs
  never match.  \<open>remove_nums b s\<close> scans \<open>s\<close>; \<open>b\<close> says that the head of \<open>s\<close> starts a
  line (the start of the text, or the place behind a line end), where \<open>^\<close> matches.
  The place behind a match is never the start of a line.
\<close>

definition lineno_match :: "ustring \<Rightarrow> ustring option" where
  "lineno_match s =
     (case dropWhile isspace s of
        [] \<Rightarrow> None
      | d # r \<Rightarrow>
          if isdecimal d then
            (case dropWhile isdecimal r of
               a # rest \<Rightarrow> if a = arrow_glyph then Some rest else None
             | [] \<Rightarrow> None)
          else None)"

lemma lineno_match_length: "lineno_match s = Some rest \<Longrightarrow> length rest < length s"
proof -
  assume a: "lineno_match s = Some rest"
  then obtain d r where d: "dropWhile isspace s = d # r"
    by (auto simp: lineno_match_def split: list.splits)
  from a d obtain x where x: "dropWhile isdecimal r = x # rest"
    by (auto simp: lineno_match_def split: list.splits if_splits)
  have "length (x # rest) \<le> length r"
    by (metis x length_dropWhile_le)
  moreover have "length (d # r) \<le> length s"
    by (metis d length_dropWhile_le)
  ultimately show ?thesis by simp
qed

function remove_nums :: "bool \<Rightarrow> ustring \<Rightarrow> ustring" where
  "remove_nums b [] = []"
| "remove_nums b (c # cs) =
     (case (if b then lineno_match (c # cs) else None) of
        Some rest \<Rightarrow> remove_nums False rest
      | None \<Rightarrow> c # remove_nums (c = newline) cs)"
  by pat_completeness auto
termination
  by (relation "measure (\<lambda>(b, s). length s)")
     (auto dest: lineno_match_length split: if_splits)

definition remove_line_numbers :: "ustring \<Rightarrow> ustring" where
  "remove_line_numbers text = remove_nums True text"

section \<open>Line classifier\<close>

definition is_user_prompt :: "ustring \<Rightarrow> bool" where
  "is_user_prompt line \<longleftrightarrow> startswith (strip line) [prompt_glyph]"

definition system_commands :: "ustring list" where
  "system_commands =
     [u ''/rename'', u ''/help'', u ''/clear'', u ''/exit'', u ''/model'', u ''/logout'',
      u ''/export'']"

definition is_system_command :: "ustring \<Rightarrow> bool" where
  "is_system_command line \<longleftrightarrow> list_ex (startswith (strip line)) system_commands"

definition system_responses :: "ustring list" where
  "system_responses =
     [u ''Please provide a name for the session'', u ''Session renamed to:'',
      u ''Exported conversation to:'', u ''Usage: /rename'', u ''Usage: /help'']"

definition is_system_response :: "ustring \<Rightarrow> bool" where
  "is_system_response line \<longleftrightarrow> list_ex (contains (strip line)) system_responses"

definition banner_indicators :: "ustring list" where
  "banner_indicators =
     [u ''Claude Code v'', u ''Welcome back'', u ''Tips for getting'', u ''Run /init'',
      u ''Recent activity'', u ''No recent activity'', u ''API Usage Billing'',
      u ''Organization'', u ''Auth conflict'', u ''Trying to use'', u ''/model to try'']"

definition is_cli_banner :: "ustring \<Rightarrow> bool" where
  "is_cli_banner line \<longleftrightarrow> list_ex (contains line) banner_indicators"

text \<open>
  \<open>re.match(r'.*Saut\'eed for \d+[ms]', line)\<close> (the e with an acute accent is the code
  point 233): somewhere behind a stretch without a line end (\<open>.\<close> matches none) stand
  the phrase, the longest run of decimal digits, at least one, and \<open>m\<close> or \<open>s\<close>.
\<close>

definition timing_phrase :: ustring where
  "timing_phrase = u ''Saut'' @ [233] @ u ''ed for ''"

definition timing_here :: "ustring \<Rightarrow> bool" where
  "timing_here s \<longleftrightarrow>
     startswith s timing_phrase \<and>
     (case drop (length timing_phrase) s of
        [] \<Rightarrow> False
      | d # r \<Rightarrow>
          isdecimal d \<and>
          (case dropWhile isdecimal r of [] \<Rightarrow> False | x # _ \<Rightarrow> x = 109 \<or> x = 115))"

fun is_timing_line :: "ustring \<Rightarrow> bool" where
  "is_timing_line [] \<longleftrightarrow> timing_here []"
| "is_timing_line (c # cs) \<longleftrightarrow> timing_here (c # cs) \<or> (c \<noteq> newline \<and> is_timing_line cs)"

definition has_claude_marker :: "ustring \<Rightarrow> bool" where
  "has_claude_marker line \<longleftrightarrow> claude_marker \<in> set line"

section \<open>Turn segmenter\<close>

datatype speaker = User | Claude

record turn =
  turn_type :: speaker
  content :: ustring

text \<open>The four variables of the loop of \<open>parse_export\<close>.\<close>

record pstate =
  turns :: "turn list"
  current_turn :: "speaker option"
  current_content :: "ustring list"
  skip_banner :: bool

definition init_state :: pstate where
  "init_state = \<lparr>turns = [], current_turn = None, current_content = [], skip_banner = True\<rparr>"

text \<open>
  \<open>if current_turn and current_content: turns.append({...})\<close>: the turn list after the
  append that is guarded by a current turn with a non-empty list of lines.
\<close>

definition flush :: "pstate \<Rightarrow> turn list" where
  "flush s =
     (case current_turn s of
        Some t \<Rightarrow>
          if current_content s \<noteq> []
          then turns s @ [\<lparr>turn_type = t, content = join_nl (current_content s)\<rparr>]
          else turns s
      | None \<Rightarrow> turns s)"

text \<open>
  \<open>re.sub\<close> of the prompt glyph and the whitespace behind it, anchored with \<open>^\<close> and
  without \<open>re.MULTILINE\<close>: at the start of the string only.
\<close>

definition strip_prompt :: "ustring \<Rightarrow> ustring" where
  "strip_prompt s =
     (case s of
        [] \<Rightarrow> []
      | c # cs \<Rightarrow> if c = prompt_glyph then dropWhile isspace cs else c # cs)"

text \<open>One round of the loop; every \<open>continue\<close> returns the state at that point.\<close>

definition process_line :: "pstate \<Rightarrow> ustring \<Rightarrow> pstate" where
  "process_line s0 line =
     (let is_claude_start = has_claude_marker line;
          cleaned = clean_line line
      in
        if skip_banner s0 \<and> (is_cli_banner cleaned \<or> strip cleaned = []) then s0
        else if skip_banner s0 \<and> \<not> is_user_prompt cleaned then s0
        else
          let s = s0\<lparr>skip_banner := False\<rparr> in
          if is_timing_line cleaned then s
          else if is_system_response cleaned then s
          else if is_user_prompt cleaned then
            (let prompt_text = strip_prompt (strip cleaned) in
             if is_system_command prompt_text
             then s\<lparr>turns := flush s, current_turn := None, current_content := []\<rparr>
             else s\<lparr>turns := flush s, current_turn := Some User,
                     current_content := (if prompt_text \<noteq> [] then [prompt_text] else [])\<rparr>)
          else if is_claude_start \<and> current_turn s \<noteq> Some Claude
          then s\<lparr>turns := flush s, current_turn := Some Claude,
                  current_content := (if strip cleaned \<noteq> [] then [cleaned] else [])\<rparr>
          else if is_claude_start \<and> current_turn s = Some Claude
          then s\<lparr>current_content := current_content s @ [cleaned]\<rparr>
          else if current_turn s = Some User
          then s\<lparr>current_content := current_content s @ [cleaned]\<rparr>
          else if current_turn s = Some Claude
          then s\<lparr>current_content := current_content s @ [cleaned]\<rparr>
          else if strip cleaned \<noteq> []
          then s\<lparr>current_turn := Some Claude, current_content := [cleaned]\<rparr>
          else s)"

text \<open>The loop over the lines, and the last flush behind it.\<close>

definition segment :: "ustring list \<Rightarrow> turn list" where
  "segment lines = flush (foldl process_line init_state lines)"

definition parse_export :: "ustring \<Rightarrow> turn list" where
  "parse_export text = segment (split_nl (remove_line_numbers text))"

text \<open>
  The lists of lines behind the turns that a run appends, in order: a round (or the last
  flush) that appends a turn appends the one of the current list of lines.
\<close>

fun flushed_lines :: "pstate \<Rightarrow> ustring list \<Rightarrow> ustring list list" where
  "flushed_lines s [] = (if flush s = turns s then [] else [current_content s])"
| "flushed_lines s (l # ls) =
     (if turns (process_line s l) = turns s then [] else [current_content s]) @
     flushed_lines (process_line s l) ls"

section \<open>Content normalizer\<close>

text \<open>
  \<open>re.match(r'^[-=]{3,}$', stripped)\<close>: the longest run of dashes and equals signs, at
  least three, up to the end of the string or to a line end that is its last character
  (where \<open>$\<close> matches as well).
\<close>

definition is_separator :: "ustring \<Rightarrow> bool" where
  "is_separator s \<longleftrightarrow>
     3 \<le> length (takeWhile (\<lambda>c. c = 45 \<or> c = 61) s) \<and>
     (dropWhile (\<lambda>c. c = 45 \<or> c = 61) s = [] \<or>
      dropWhile (\<lambda>c. c = 45 \<or> c = 61) s = [newline])"

text \<open>\<open>len(line) - len(line.lstrip())\<close>.\<close>

definition indent :: "ustring \<Rightarrow> nat" where
  "indent line = length line - length (lstrip line)"

definition min_indent :: "ustring list \<Rightarrow> nat" where
  "min_indent lines =
     (case filter (\<lambda>line. strip line \<noteq> []) lines of
        [] \<Rightarrow> 0
      | l # ls \<Rightarrow> fold min (map indent ls) (indent l))"

text \<open>
  \<open>if line and len(line) >= min_indent: line = line[min_indent:]\<close>, and one round of the
  loop of \<open>clean_content\<close> over the pair of \<open>cleaned\<close> and \<open>prev_was_separator\<close>.
  \<open>cleaned[-1]\<close> is read only behind the test that \<open>cleaned\<close> is not empty.
\<close>

definition dedent :: "nat \<Rightarrow> ustring \<Rightarrow> ustring" where
  "dedent m line = (if line \<noteq> [] \<and> m \<le> length line then drop m line else line)"

definition clean_step :: "nat \<Rightarrow> ustring list \<times> bool \<Rightarrow> ustring \<Rightarrow> ustring list \<times> bool" where
  "clean_step m st line =
     (let cleaned = fst st; prev_was_separator = snd st; stripped = strip line in
      if is_separator stripped then
        (cleaned, if cleaned \<noteq> [] \<and> strip (last cleaned) \<noteq> [] then True else prev_was_separator)
      else if prev_was_separator \<and> stripped = [] then (cleaned, False)
      else (cleaned @ [dedent m line], False))"

definition cleaned_lines :: "ustring list \<Rightarrow> ustring list" where
  "cleaned_lines lines = fst (foldl (clean_step (min_indent lines)) ([], False) lines)"

definition clean_content :: "ustring \<Rightarrow> ustring" where
  "clean_content text = join_nl (cleaned_lines (split_nl text))"

section \<open>Markdown renderer\<close>

text \<open>
  \<open>re.sub(r'\n{4,}', '\n\n\n', text)\<close>: a run of four or more line ends becomes three;
  the match is greedy, so it takes the whole run, and a shorter run stays.
\<close>

function collapse_newlines :: "ustring \<Rightarrow> ustring" where
  "collapse_newlines [] = []"
| "collapse_newlines (c # cs) =
     (if c = newline then
        (let n = Suc (length (takeWhile (\<lambda>x. x = newline) cs)) in
         replicate (if 4 \<le> n then 3 else n) newline @
         collapse_newlines (dropWhile (\<lambda>x. x = newline) cs))
      else c # collapse_newlines cs)"
  by pat_completeness auto
termination
  by (relation "measure length") (auto simp: length_dropWhile_le less_Suc_eq_le)

text \<open>The loop of \<open>collapse_whitespace\<close>; the number is \<open>blank_count\<close>.\<close>

fun squeeze_blank :: "nat \<Rightarrow> ustring list \<Rightarrow> ustring list" where
  "squeeze_blank blank_count [] = []"
| "squeeze_blank blank_count (line # lines) =
     (if strip line = [] then
        (if Suc blank_count \<le> 2 then [] # squeeze_blank (Suc blank_count) lines
         else squeeze_blank (Suc blank_count) lines)
      else line # squeeze_blank 0 lines)"

definition collapse_whitespace :: "ustring \<Rightarrow> ustring" where
  "collapse_whitespace text = join_nl (squeeze_blank 0 (split_nl (collapse_newlines text)))"

text \<open>
  The header of a user turn: \<open>if len(header) > 80: header = header[:77] + '...'\<close>.
\<close>

definition truncate_header :: "ustring \<Rightarrow> ustring" where
  "truncate_header header = (if 80 < length header then take 77 header @ u ''...'' else header)"

text \<open>
  The lines that one round of the loop of \<open>format_markdown\<close> appends for a turn.
  \<open>content_lines[0]\<close> is the head of a split, which is never empty.
\<close>

definition render_turn :: "turn \<Rightarrow> ustring list" where
  "render_turn t =
     (let content0 = strip (content t) in
      if content0 = [] then []
      else
        let content1 = clean_content content0 in
        (if turn_type t = User then
           (let content_lines = split_nl content1;
                header = truncate_header (strip (hd content_lines));
                remaining = strip (join_nl (tl content_lines))
            in [u ''# '' @ header] @
               (if 1 < length content_lines \<and> remaining \<noteq> [] then [[], remaining] else []))
         else [[], u ''## Claude'', [], content1])
        @ [[]])"

text \<open>
  The front matter.  \<open>today\<close> is \<open>datetime.now().strftime('%Y-%m-%d')\<close>: the renderer reads
  the clock, so the date is a parameter of the model.
\<close>

definition front_matter :: "ustring \<Rightarrow> ustring \<Rightarrow> ustring list" where
  "front_matter today title =
     [u ''---'', u ''title: '' @ [34] @ title @ [34], u ''date: '' @ today,
      u ''tags: [claude-code, conversation]'', u ''---'', []]"

definition format_markdown :: "ustring \<Rightarrow> turn list \<Rightarrow> ustring \<Rightarrow> ustring" where
  "format_markdown today ts title =
     collapse_whitespace (join_nl (front_matter today title @ concat (map render_turn ts)))"

text \<open>The pipeline of \<open>main\<close> between reading the file and writing the result.\<close>

definition convert :: "ustring \<Rightarrow> ustring \<Rightarrow> ustring \<Rightarrow> ustring" where
  "convert today text title = format_markdown today (parse_export text) title"

section \<open>Properties of the line cleaner\<close>

lemma ansi_match_set: "ansi_match s = Some rest \<Longrightarrow> set rest \<subseteq> set s"
proof -
  assume a: "ansi_match s = Some rest"
  then obtain e b t where s: "s = e # b # t"
    by (auto simp: ansi_match_def split: list.splits)
  from a s obtain f where d: "dropWhile ansi_param t = f # rest"
    by (auto simp: ansi_match_def split: list.splits if_splits)
  have "set (dropWhile ansi_param t) \<subseteq> set t"
    by (auto dest: set_dropWhileD)
  with d s show ?thesis by auto
qed

lemma set_remove_ansi_codes: "set (remove_ansi_codes s) \<subseteq> set s"
proof (induction s rule: remove_ansi_codes.induct)
  case 1 show ?case by simp
next
  case (2 c cs)
  show ?case
  proof (cases "ansi_match (c # cs)")
    case None with 2 show ?thesis by auto
  next
    case (Some rest)
    then have "set rest \<subseteq> set (c # cs)"
      by (rule ansi_match_set)
    with 2 Some show ?thesis by auto
  qed
qed

lemma length_remove_ansi_codes: "length (remove_ansi_codes s) \<le> length s"
proof (induction s rule: remove_ansi_codes.induct)
  case 1 show ?case by simp
next
  case (2 c cs)
  show ?case
  proof (cases "ansi_match (c # cs)")
    case None with 2 show ?thesis by auto
  next
    case (Some rest)
    with 2 ansi_match_length[OF Some] show ?thesis by auto
  qed
qed

lemma remove_ansi_codes_fixed:
  "length (remove_ansi_codes s) = length s \<Longrightarrow> remove_ansi_codes s = s"
proof (induction s rule: remove_ansi_codes.induct)
  case 1 show ?case by simp
next
  case (2 c cs)
  show ?case
  proof (cases "ansi_match (c # cs)")
    case None with 2 show ?thesis by auto
  next
    case (Some rest)
    with 2(3) ansi_match_length[OF Some] length_remove_ansi_codes[of rest] show ?thesis by auto
  qed
qed

lemma rstrip_idem: "rstrip (rstrip s) = rstrip s"
  by (simp add: rstrip_def dropWhile_idem)

lemma set_rstrip: "set (rstrip s) \<subseteq> set s"
  by (auto simp: rstrip_def dest: set_dropWhileD)

lemma length_rstrip: "length (rstrip s) \<le> length s"
  by (metis rstrip_def length_dropWhile_le length_rev)

lemma dropWhile_fixed: "length (dropWhile P xs) = length xs \<Longrightarrow> dropWhile P xs = xs"
proof -
  assume a: "length (dropWhile P xs) = length xs"
  have "length (takeWhile P xs) + length (dropWhile P xs) = length xs"
    by (metis length_append takeWhile_dropWhile_id)
  with a have "takeWhile P xs = []" by simp
  then show ?thesis by (metis append_Nil takeWhile_dropWhile_id)
qed

lemma rstrip_fixed: "length (rstrip s) = length s \<Longrightarrow> rstrip s = s"
  using dropWhile_fixed[of isspace "rev s"] by (simp add: rstrip_def)


definition glyph_free :: "ustring \<Rightarrow> bool" where
  "glyph_free s \<longleftrightarrow>
     (\<forall>c \<in> set s. c \<notin> set BOX_CHARS \<and> c \<noteq> claude_marker \<and> c \<noteq> footer_glyph \<and>
        c \<noteq> thinking_glyph \<and> c \<noteq> ellipsis_glyph)"

lemma glyph_free_subset: "glyph_free s \<Longrightarrow> set t \<subseteq> set s \<Longrightarrow> glyph_free t"
  by (auto simp: glyph_free_def)

lemma set_replace_ellipsis:
  "c \<in> set (replace_ellipsis s) \<Longrightarrow> c = 46 \<or> (c \<in> set s \<and> c \<noteq> ellipsis_glyph)"
  by (auto simp: replace_ellipsis_def u_def split: if_splits)

lemma replace_ellipsis_id: "ellipsis_glyph \<notin> set s \<Longrightarrow> replace_ellipsis s = s"
  by (induction s) (auto simp: replace_ellipsis_def)

lemma glyph_free_clean_line: "glyph_free (clean_line x)"
proof -
  have "glyph_free (replace_ellipsis
       (filter (\<lambda>c. c \<noteq> thinking_glyph)
         (filter (\<lambda>c. c \<noteq> footer_glyph)
           (filter (\<lambda>c. c \<noteq> claude_marker)
             (remove_box_chars (remove_ansi_codes x))))))"
    unfolding glyph_free_def
  proof
    fix c assume "c \<in> set (replace_ellipsis
       (filter (\<lambda>c. c \<noteq> thinking_glyph)
         (filter (\<lambda>c. c \<noteq> footer_glyph)
           (filter (\<lambda>c. c \<noteq> claude_marker)
             (remove_box_chars (remove_ansi_codes x))))))"
    from set_replace_ellipsis[OF this]
    consider "c = 46" | "c \<notin> set BOX_CHARS" "c \<noteq> claude_marker" "c \<noteq> footer_glyph"
      "c \<noteq> thinking_glyph" "c \<noteq> ellipsis_glyph"
      by (auto simp: remove_box_chars_def)
    then show "c \<notin> set BOX_CHARS \<and> c \<noteq> claude_marker \<and> c \<noteq> footer_glyph \<and>
        c \<noteq> thinking_glyph \<and> c \<noteq> ellipsis_glyph"
    proof cases
      case 1
      then show ?thesis
        by (simp add: BOX_CHARS_def claude_marker_def footer_glyph_def
          thinking_glyph_def ellipsis_glyph_def)
    next
      case 2
      then show ?thesis by simp
    qed
  qed
  then show ?thesis
    unfolding clean_line_def by (rule glyph_free_subset) (rule set_rstrip)
qed

lemma clean_line_glyph_free:
  assumes "glyph_free y"
  shows "clean_line y = rstrip (remove_ansi_codes y)"
proof -
  have g: "glyph_free (remove_ansi_codes y)"
    using assms set_remove_ansi_codes by (rule glyph_free_subset)
  then have 1: "remove_box_chars (remove_ansi_codes y) = remove_ansi_codes y"
    by (auto simp: remove_box_chars_def glyph_free_def)
  from g have 2: "filter (\<lambda>c. c \<noteq> claude_marker) (remove_ansi_codes y) = remove_ansi_codes y"
    and 3: "filter (\<lambda>c. c \<noteq> footer_glyph) (remove_ansi_codes y) = remove_ansi_codes y"
    and 4: "filter (\<lambda>c. c \<noteq> thinking_glyph) (remove_ansi_codes y) = remove_ansi_codes y"
    and 5: "ellipsis_glyph \<notin> set (remove_ansi_codes y)"
    by (auto simp: glyph_free_def)
  show ?thesis
    by (simp add: clean_line_def 1 2 3 4 replace_ellipsis_id[OF 5])
qed

lemma rstrip_clean_line: "rstrip (clean_line x) = clean_line x"
  by (simp add: clean_line_def rstrip_idem)

lemma clean_line_twice:
  "clean_line (clean_line x) = clean_line x \<longleftrightarrow>
   remove_ansi_codes (clean_line x) = clean_line x"
proof
  assume "remove_ansi_codes (clean_line x) = clean_line x"
  then show "clean_line (clean_line x) = clean_line x"
    by (simp add: clean_line_glyph_free[OF glyph_free_clean_line] rstrip_clean_line)
next
  assume "clean_line (clean_line x) = clean_line x"
  then have e: "rstrip (remove_ansi_codes (clean_line x)) = clean_line x"
    by (simp add: clean_line_glyph_free[OF glyph_free_clean_line])
  have "length (clean_line x) \<le> length (remove_ansi_codes (clean_line x))"
    using length_rstrip[of "remove_ansi_codes (clean_line x)"] e by simp
  with length_remove_ansi_codes[of "clean_line x"]
  show "remove_ansi_codes (clean_line x) = clean_line x"
    by (intro remove_ansi_codes_fixed) simp
qed

lemma ansi_match_no_esc: "c \<noteq> 27 \<Longrightarrow> ansi_match (c # cs) = None"
  by (cases cs) (simp_all add: ansi_match_def)

lemma remove_ansi_codes_no_esc: "27 \<notin> set s \<Longrightarrow> remove_ansi_codes s = s"
  by (induction s) (simp_all add: ansi_match_no_esc)

lemma set_clean_line: "c \<in> set (clean_line x) \<Longrightarrow> c = 46 \<or> c \<in> set x"
proof -
  assume "c \<in> set (clean_line x)"
  then have "c \<in> set (replace_ellipsis
       (filter (\<lambda>c. c \<noteq> thinking_glyph)
         (filter (\<lambda>c. c \<noteq> footer_glyph)
           (filter (\<lambda>c. c \<noteq> claude_marker)
             (remove_box_chars (remove_ansi_codes x))))))"
    unfolding clean_line_def using set_rstrip by blast
  from set_replace_ellipsis[OF this] show ?thesis
    using set_remove_ansi_codes[of x] by (auto simp: remove_box_chars_def)
qed

lemma clean_line_idempotent_no_esc:
  "27 \<notin> set x \<Longrightarrow> clean_line (clean_line x) = clean_line x"
proof -
  assume a: "27 \<notin> set x"
  have "27 \<notin> set (clean_line x)"
    using a set_clean_line[of 27 x] by auto
  then have "remove_ansi_codes (clean_line x) = clean_line x"
    by (rule remove_ansi_codes_no_esc)
  then show ?thesis by (simp only: clean_line_twice)
qed

lemmas clean_line_eval =
  clean_line_def rstrip_def replace_ellipsis_def remove_box_chars_def BOX_CHARS_def
  ansi_match_def ansi_param_def claude_marker_def footer_glyph_def thinking_glyph_def
  ellipsis_glyph_def isspace_def u_def

text \<open>
  C5 as stated: \<open>clean_line (clean_line x) = clean_line x\<close> for every \<open>x\<close>.  It fails:
  the escape sequences are removed before the glyphs, so deleting a glyph can join the
  two halves of an escape sequence.  On ESC, the assistant marker, \<open>[\<close>, \<open>m\<close> the first
  pass leaves ESC \<open>[\<close> \<open>m\<close>, and the second pass removes that.
\<close>

theorem clean_line_not_idempotent:
  "clean_line (clean_line [27, 9210, 91, 109]) \<noteq> clean_line [27, 9210, 91, 109]"
  by (simp add: clean_line_eval)

text \<open>
  C5, amended: cleaning a cleaned line changes nothing exactly when the cleaned line
  holds no escape sequence, that is when \<open>remove_ansi_codes\<close> leaves it as it is.  (By
  \<open>clean_line_idempotent_no_esc\<close> this is so for every line without an ESC character.)
\<close>

theorem clean_line_idempotent_iff:
  "clean_line (clean_line x) = clean_line x \<longleftrightarrow>
   remove_ansi_codes (clean_line x) = clean_line x"
  by (rule clean_line_twice)

theorem clean_line_idempotent_iff_witness:
  "clean_line (clean_line (u ''| ok  '')) = clean_line (u ''| ok  '')"
proof -
  have "remove_ansi_codes (clean_line (u ''| ok  '')) = clean_line (u ''| ok  '')"
    by (simp add: clean_line_eval)
  then show ?thesis by (simp only: clean_line_idempotent_iff)
qed

section \<open>Properties of the segmenter\<close>

lemmas classify_eval =
  startswith_def is_user_prompt_def is_system_command_def system_commands_def
  is_system_response_def system_responses_def is_cli_banner_def banner_indicators_def
  timing_here_def timing_phrase_def has_claude_marker_def strip_def lstrip_def
  prompt_glyph_def newline_def arrow_glyph_def isdecimal_def decimal_ranges_def
  lineno_match_def remove_line_numbers_def

lemmas segment_eval =
  clean_line_eval classify_eval process_line_def Let_def flush_def segment_def
  parse_export_def init_state_def strip_prompt_def

lemma process_line_banner_inv:
  "(current_turn s \<noteq> None \<longrightarrow> \<not> skip_banner s) \<Longrightarrow>
   (current_turn (process_line s l) \<noteq> None \<longrightarrow> \<not> skip_banner (process_line s l))"
  by (auto simp: process_line_def Let_def)

lemma foldl_banner_inv:
  "(current_turn s \<noteq> None \<longrightarrow> \<not> skip_banner s) \<Longrightarrow>
   (current_turn (foldl process_line s ls) \<noteq> None \<longrightarrow> \<not> skip_banner (foldl process_line s ls))"
proof (induction ls arbitrary: s)
  case Nil then show ?case by simp
next
  case (Cons l ls)
  show ?case
    unfolding foldl_Cons
    by (rule Cons.IH) (rule process_line_banner_inv[OF Cons.prems])
qed

lemma reachable_banner_inv:
  "current_turn (foldl process_line init_state ls) = Some t \<Longrightarrow>
   \<not> skip_banner (foldl process_line init_state ls)"
  using foldl_banner_inv[of init_state ls] by (simp add: init_state_def)

lemma skip_banner_off: "\<not> skip_banner s \<Longrightarrow> s\<lparr>skip_banner := False\<rparr> = s"
  by (cases s) simp

lemma process_line_system_command:
  assumes "\<not> skip_banner s"
    and "is_user_prompt (clean_line line)"
    and "is_system_command (strip_prompt (strip (clean_line line)))"
    and "\<not> is_timing_line (clean_line line)"
    and "\<not> is_system_response (clean_line line)"
  shows "process_line s line = s\<lparr>turns := flush s, current_turn := None, current_content := []\<rparr>"
  using assms by (simp add: process_line_def Let_def skip_banner_off)

lemma flush_idle: "current_turn s = None \<Longrightarrow> flush s = turns s"
  by (simp add: flush_def)

lemma system_command_step:
  assumes "current_turn (foldl process_line init_state pre) = Some Claude"
    and "is_user_prompt (clean_line line)"
    and "is_system_command (strip_prompt (strip (clean_line line)))"
    and "\<not> is_timing_line (clean_line line)"
    and "\<not> is_system_response (clean_line line)"
  shows "foldl process_line init_state (pre @ [line]) =
     (foldl process_line init_state pre)
       \<lparr>turns :=
          (if current_content (foldl process_line init_state pre) \<noteq> []
           then turns (foldl process_line init_state pre) @
                [\<lparr>turn_type = Claude,
                  content = join_nl (current_content (foldl process_line init_state pre))\<rparr>]
           else turns (foldl process_line init_state pre)),
        current_turn := None, current_content := []\<rparr>
   \<and> segment (pre @ [line]) = segment pre"
proof -
  let ?s = "foldl process_line init_state pre"
  have nb: "\<not> skip_banner ?s" using assms(1) by (rule reachable_banner_inv)
  have step: "process_line ?s line = ?s\<lparr>turns := flush ?s, current_turn := None, current_content := []\<rparr>"
    using nb assms(2-5) by (rule process_line_system_command)
  have fl: "flush ?s = (if current_content ?s \<noteq> []
           then turns ?s @ [\<lparr>turn_type = Claude, content = join_nl (current_content ?s)\<rparr>]
           else turns ?s)"
    using assms(1) by (simp add: flush_def)
  show ?thesis
    by (simp add: segment_def step flush_idle) (simp add: fl)
qed


lemma process_line_marker:
  assumes "\<not> skip_banner s"
    and "has_claude_marker l"
    and "\<not> is_user_prompt (clean_line l)"
    and "\<not> is_timing_line (clean_line l)"
    and "\<not> is_system_response (clean_line l)"
  shows "process_line s l =
     (if current_turn s = Some Claude
      then s\<lparr>current_content := current_content s @ [clean_line l]\<rparr>
      else s\<lparr>turns := flush s, current_turn := Some Claude,
             current_content := (if strip (clean_line l) \<noteq> [] then [clean_line l] else [])\<rparr>)"
  using assms by (simp add: process_line_def Let_def skip_banner_off)

lemma clean_line_marker_only: "clean_line [claude_marker] = []"
  by (simp add: clean_line_eval)

lemma marker_only_plain:
  "has_claude_marker [claude_marker]" "\<not> is_user_prompt (clean_line [claude_marker])"
  "\<not> is_timing_line (clean_line [claude_marker])"
  "\<not> is_system_response (clean_line [claude_marker])"
  by (simp_all add: clean_line_marker_only has_claude_marker_def is_user_prompt_def strip_def
      lstrip_def rstrip_def startswith_def timing_here_def timing_phrase_def u_def
      is_system_response_def system_responses_def)

lemma marker_append2:
  assumes "\<not> skip_banner a" and "current_turn a = Some Claude"
    and "has_claude_marker l1" and "has_claude_marker l2"
    and "\<not> is_user_prompt (clean_line l1)" "\<not> is_timing_line (clean_line l1)"
        "\<not> is_system_response (clean_line l1)"
    and "\<not> is_user_prompt (clean_line l2)" "\<not> is_timing_line (clean_line l2)"
        "\<not> is_system_response (clean_line l2)"
  shows "process_line (process_line a l1) l2 =
         a\<lparr>current_content := current_content a @ [clean_line l1, clean_line l2]\<rparr>"
proof -
  have b: "process_line a l1 = a\<lparr>current_content := current_content a @ [clean_line l1]\<rparr>"
    using process_line_marker[of a l1] assms by simp
  show ?thesis
    using process_line_marker[of "a\<lparr>current_content := current_content a @ [clean_line l1]\<rparr>" l2]
      assms
    by (simp add: b)
qed

lemma marker_run:
  assumes nb: "\<not> skip_banner (foldl process_line init_state pre)"
    and m1: "has_claude_marker l1" and m2: "has_claude_marker l2"
    and p1: "\<not> is_user_prompt (clean_line l1)" "\<not> is_timing_line (clean_line l1)"
            "\<not> is_system_response (clean_line l1)"
    and p2: "\<not> is_user_prompt (clean_line l2)" "\<not> is_timing_line (clean_line l2)"
            "\<not> is_system_response (clean_line l2)"
  shows "segment (pre @ [[claude_marker], l1, l2]) =
     (if current_turn (foldl process_line init_state pre) = Some Claude
      then turns (foldl process_line init_state pre) @
           [\<lparr>turn_type = Claude,
             content = join_nl (current_content (foldl process_line init_state pre) @
                                [[], clean_line l1, clean_line l2])\<rparr>]
      else segment pre @
           [\<lparr>turn_type = Claude, content = join_nl [clean_line l1, clean_line l2]\<rparr>])"
proof -
  let ?s = "foldl process_line init_state pre"
  let ?a = "process_line ?s [claude_marker]"
  have a: "?a = (if current_turn ?s = Some Claude
      then ?s\<lparr>current_content := current_content ?s @ [[]]\<rparr>
      else ?s\<lparr>turns := flush ?s, current_turn := Some Claude, current_content := []\<rparr>)"
    using process_line_marker[OF nb marker_only_plain]
    by (simp add: clean_line_marker_only strip_def lstrip_def rstrip_def)
  have nba: "\<not> skip_banner ?a" and cta: "current_turn ?a = Some Claude"
    using nb by (simp_all add: a)
  let ?c = "process_line (process_line ?a l1) l2"
  have c: "?c = ?a\<lparr>current_content := current_content ?a @ [clean_line l1, clean_line l2]\<rparr>"
    using nba cta m1 m2 p1 p2 by (rule marker_append2)
  have tc: "turns ?c = turns ?a" and cc: "current_turn ?c = Some Claude"
    and lc: "current_content ?c = current_content ?a @ [clean_line l1, clean_line l2]"
    using cta by (simp_all only: c) simp_all
  have fc: "flush ?c =
      turns ?a @ [\<lparr>turn_type = Claude,
                   content = join_nl (current_content ?a @ [clean_line l1, clean_line l2])\<rparr>]"
    by (simp add: flush_def tc cc lc)
  have "segment (pre @ [[claude_marker], l1, l2]) = flush ?c"
    by (simp add: segment_def)
  also note fc
  finally show ?thesis
    by (simp add: a segment_def)
qed

lemma flush_cases:
  "flush s = turns s \<or>
   (current_content s \<noteq> [] \<and>
    (\<exists>t. flush s = turns s @ [\<lparr>turn_type = t, content = join_nl (current_content s)\<rparr>]))"
  by (simp add: flush_def split: option.splits)

lemma skip_banner_flush: "flush (s\<lparr>skip_banner := b\<rparr>) = flush s"
  by (simp add: flush_def split: option.splits)

lemma process_line_turns:
  "turns (process_line s l) = turns s \<or> turns (process_line s l) = flush s"
  by (simp add: process_line_def Let_def skip_banner_flush)

lemma flushed_lines_sound:
  "map content (flush (foldl process_line s ls)) =
     map content (turns s) @ map join_nl (flushed_lines s ls) \<and>
   [] \<notin> set (flushed_lines s ls)"
proof (induction ls arbitrary: s)
  case Nil
  show ?case using flush_cases[of s] by auto
next
  case (Cons l ls)
  have step: "map content (turns (process_line s l)) =
      map content (turns s) @
      map join_nl (if turns (process_line s l) = turns s then [] else [current_content s])
    \<and> [] \<notin> set (if turns (process_line s l) = turns s then [] else [current_content s])"
    using process_line_turns[of s l] flush_cases[of s] by auto
  show ?case
    using Cons.IH[of "process_line s l"] step by simp
qed

lemma join_nl_Nil: "join_nl ls = [] \<longleftrightarrow> ls = [] \<or> ls = [[]]"
  by (cases ls rule: join_nl.cases) simp_all

subsection \<open>C1: a run of marker lines\<close>

text \<open>
  C1 as stated: a line that holds only the assistant marker, followed by two more lines
  with the marker and no prompt line between them, gives exactly one assistant turn whose
  content has 3 lines.  It fails.  Behind a prompt the marker line opens the assistant
  turn, but it is blank once cleaned and so seeds the turn with no line: the turn has the
  2 lines that follow.  With no prompt before them the three lines are still preamble,
  and nothing is emitted.
\<close>

theorem marker_run_two_lines:
  "parse_export (10095 # u '' hi'' @ 10 # 9210 # 10 # 9210 # u '' a'' @ 10 # 9210 # u '' b'') =
     [\<lparr>turn_type = User, content = u ''hi''\<rparr>,
      \<lparr>turn_type = Claude, content = u '' a'' @ 10 # u '' b''\<rparr>] \<and>
   map (\<lambda>t. length (split_nl (content t)))
     (parse_export (10095 # u '' hi'' @ 10 # 9210 # 10 # 9210 # u '' a'' @ 10 # 9210 # u '' b'')) =
     [1, 2] \<and>
   parse_export (9210 # 10 # 9210 # u '' a'' @ 10 # 9210 # u '' b'') = []"
  by (simp add: segment_eval)

text \<open>
  C1, amended: once the preamble is over, a line that holds only the assistant marker
  followed by two lines with the marker (none of them a prompt, a timing line or a system
  response once cleaned) belongs to exactly one assistant turn.  If no assistant turn is
  in progress the earlier turn is flushed and one new assistant turn follows, with 2
  lines: the two cleaned lines behind the marker line.  If an assistant turn is in
  progress, the three cleaned lines (the first one empty) are appended to it.
\<close>

theorem marker_run_merges:
  assumes "\<not> skip_banner (foldl process_line init_state pre)"
    and "has_claude_marker l1" and "has_claude_marker l2"
    and "\<not> is_user_prompt (clean_line l1)" and "\<not> is_timing_line (clean_line l1)"
    and "\<not> is_system_response (clean_line l1)"
    and "\<not> is_user_prompt (clean_line l2)" and "\<not> is_timing_line (clean_line l2)"
    and "\<not> is_system_response (clean_line l2)"
  shows "segment (pre @ [[claude_marker], l1, l2]) =
     (if current_turn (foldl process_line init_state pre) = Some Claude
      then turns (foldl process_line init_state pre) @
           [\<lparr>turn_type = Claude,
             content = join_nl (current_content (foldl process_line init_state pre) @
                                [[], clean_line l1, clean_line l2])\<rparr>]
      else segment pre @
           [\<lparr>turn_type = Claude, content = join_nl [clean_line l1, clean_line l2]\<rparr>])"
  using assms by (rule marker_run)

theorem marker_run_merges_witness:
  "segment ([10095 # u '' hi''] @ [[claude_marker], 9210 # u '' a'', 9210 # u '' b'']) =
     [\<lparr>turn_type = User, content = u ''hi''\<rparr>,
      \<lparr>turn_type = Claude, content = u '' a'' @ 10 # u '' b''\<rparr>]"
proof -
  have h: "\<not> skip_banner (foldl process_line init_state [10095 # u '' hi''])"
    "has_claude_marker (9210 # u '' a'')" "has_claude_marker (9210 # u '' b'')"
    "\<not> is_user_prompt (clean_line (9210 # u '' a''))"
    "\<not> is_timing_line (clean_line (9210 # u '' a''))"
    "\<not> is_system_response (clean_line (9210 # u '' a''))"
    "\<not> is_user_prompt (clean_line (9210 # u '' b''))"
    "\<not> is_timing_line (clean_line (9210 # u '' b''))"
    "\<not> is_system_response (clean_line (9210 # u '' b''))"
    by (simp_all add: segment_eval)
  have e: "current_turn (foldl process_line init_state [10095 # u '' hi'']) \<noteq> Some Claude"
    "segment [10095 # u '' hi''] = [\<lparr>turn_type = User, content = u ''hi''\<rparr>]"
    "clean_line (9210 # u '' a'') = u '' a''" "clean_line (9210 # u '' b'') = u '' b''"
    by (simp_all add: segment_eval)
  show ?thesis
    using marker_run_merges[OF h] e by (simp add: newline_def)
qed

subsection \<open>C2: what a flush appends\<close>

text \<open>
  C2 as stated: the content of every turn that \<open>parse_export\<close> appends is a non-empty
  string.  It fails: the guard of the append looks at the list of lines, and a list that
  holds one empty line is not empty.  A bare prompt followed by an empty line gives a user
  turn whose content is the empty string.
\<close>

theorem empty_content_turn:
  "parse_export [10095, 10] = [\<lparr>turn_type = User, content = []\<rparr>]"
  by (simp add: segment_eval)

text \<open>
  C2, amended: every turn that \<open>parse_export\<close> appends is the join of the list of lines
  current at that point of the run, and that list is never empty (a turn without lines is
  dropped).  The content of an appended turn is the empty string exactly when its list is
  the single empty line.
\<close>

theorem appended_turns_have_lines:
  "map content (parse_export text) =
     map join_nl (flushed_lines init_state (split_nl (remove_line_numbers text))) \<and>
   [] \<notin> set (flushed_lines init_state (split_nl (remove_line_numbers text))) \<and>
   (\<forall>i < length (parse_export text).
      content (parse_export text ! i) = [] \<longleftrightarrow>
      flushed_lines init_state (split_nl (remove_line_numbers text)) ! i = [[]])"
proof -
  let ?ls = "split_nl (remove_line_numbers text)"
  have a: "map content (parse_export text) = map join_nl (flushed_lines init_state ?ls)"
    and b: "[] \<notin> set (flushed_lines init_state ?ls)"
    using flushed_lines_sound[of init_state ?ls]
    by (simp_all add: parse_export_def segment_def init_state_def)
  have "content (parse_export text ! i) = [] \<longleftrightarrow> flushed_lines init_state ?ls ! i = [[]]"
    if "i < length (parse_export text)" for i
  proof -
    from a have len: "length (parse_export text) = length (flushed_lines init_state ?ls)"
      by (metis length_map)
    have "content (parse_export text ! i) = map content (parse_export text) ! i"
      using that by simp
    also have "\<dots> = join_nl (flushed_lines init_state ?ls ! i)"
      using that len by (simp add: a)
    finally have "content (parse_export text ! i) = join_nl (flushed_lines init_state ?ls ! i)" .
    moreover have "flushed_lines init_state ?ls ! i \<noteq> []"
      using b that len by (metis nth_mem)
    ultimately show ?thesis by (simp add: join_nl_Nil)
  qed
  with a b show ?thesis by blast
qed

theorem appended_turns_have_lines_witness:
  "flushed_lines init_state (split_nl (remove_line_numbers [10095, 10])) = [[[]]] \<and>
   map content (parse_export [10095, 10]) = map join_nl [[[]]]"
proof -
  have e: "flushed_lines init_state (split_nl (remove_line_numbers [10095, 10])) = [[[]]]"
    by (simp add: segment_eval)
  show ?thesis
    using appended_turns_have_lines[of "[10095, 10]"] by (simp only: e)
qed

subsection \<open>C3: a system command behind an assistant turn\<close>

text \<open>
  C3 as stated: whenever a prompt line whose prompt text is a system command follows the
  lines of an assistant turn in progress, the turn is flushed and no turn stays current.
  It fails for a command line that is also a system response (or a timing line): such a
  line is discarded before the prompt test, so the assistant turn stays current and goes
  on collecting lines.
\<close>

theorem system_command_not_always_flushed:
  "current_turn (foldl process_line init_state [10095 # u '' hi'', 9210 # u '' yo'']) = Some Claude \<and>
   is_user_prompt (clean_line (10095 # u '' /rename Session renamed to: x'')) \<and>
   is_system_command (strip_prompt (strip (clean_line (10095 # u '' /rename Session renamed to: x'')))) \<and>
   current_turn (foldl process_line init_state
      [10095 # u '' hi'', 9210 # u '' yo'', 10095 # u '' /rename Session renamed to: x'']) = Some Claude \<and>
   parse_export (10095 # u '' hi'' @ 10 # 9210 # u '' yo'' @ 10 # 10095 #
      u '' /rename Session renamed to: x'' @ 10 # u ''more'') =
     [\<lparr>turn_type = User, content = u ''hi''\<rparr>,
      \<lparr>turn_type = Claude, content = u '' yo'' @ 10 # u ''more''\<rparr>]"
  by (simp add: segment_eval)

text \<open>
  C3, amended: for every run that has an assistant turn in progress, a prompt line whose
  prompt text is a system command and that is neither a timing line nor a system response
  once cleaned flushes the assistant turn (appends it if it has a line), leaves no current
  turn and no current lines, and adds no turn of its own: the output of the run with the
  command line is the output of the run without it.
\<close>

theorem system_command_flushes:
  assumes "current_turn (foldl process_line init_state pre) = Some Claude"
    and "is_user_prompt (clean_line line)"
    and "is_system_command (strip_prompt (strip (clean_line line)))"
    and "\<not> is_timing_line (clean_line line)"
    and "\<not> is_system_response (clean_line line)"
  shows "foldl process_line init_state (pre @ [line]) =
     (foldl process_line init_state pre)
       \<lparr>turns :=
          (if current_content (foldl process_line init_state pre) \<noteq> []
           then turns (foldl process_line init_state pre) @
                [\<lparr>turn_type = Claude,
                  content = join_nl (current_content (foldl process_line init_state pre))\<rparr>]
           else turns (foldl process_line init_state pre)),
        current_turn := None, current_content := []\<rparr>
   \<and> segment (pre @ [line]) = segment pre"
  using assms by (rule system_command_step)

theorem system_command_flushes_witness:
  "turns (foldl process_line init_state
      ([10095 # u '' hi'', 9210 # u '' yo''] @ [10095 # u '' /rename foo''])) =
     [\<lparr>turn_type = User, content = u ''hi''\<rparr>, \<lparr>turn_type = Claude, content = u '' yo''\<rparr>] \<and>
   current_turn (foldl process_line init_state
      ([10095 # u '' hi'', 9210 # u '' yo''] @ [10095 # u '' /rename foo''])) = None \<and>
   segment ([10095 # u '' hi'', 9210 # u '' yo''] @ [10095 # u '' /rename foo'']) =
     [\<lparr>turn_type = User, content = u ''hi''\<rparr>, \<lparr>turn_type = Claude, content = u '' yo''\<rparr>]"
proof -
  have h: "current_turn (foldl process_line init_state [10095 # u '' hi'', 9210 # u '' yo'']) = Some Claude"
    "is_user_prompt (clean_line (10095 # u '' /rename foo''))"
    "is_system_command (strip_prompt (strip (clean_line (10095 # u '' /rename foo''))))"
    "\<not> is_timing_line (clean_line (10095 # u '' /rename foo''))"
    "\<not> is_system_response (clean_line (10095 # u '' /rename foo''))"
    by (simp_all add: segment_eval)
  have e: "turns (foldl process_line init_state [10095 # u '' hi'', 9210 # u '' yo'']) =
      [\<lparr>turn_type = User, content = u ''hi''\<rparr>]"
    "current_content (foldl process_line init_state [10095 # u '' hi'', 9210 # u '' yo'']) = [u '' yo'']"
    "segment [10095 # u '' hi'', 9210 # u '' yo''] =
      [\<lparr>turn_type = User, content = u ''hi''\<rparr>, \<lparr>turn_type = Claude, content = u '' yo''\<rparr>]"
    by (simp_all add: segment_eval)
  show ?thesis
    using system_command_flushes[OF h] e by simp
qed

section \<open>Properties of the renderer\<close>










definition nonblank :: "ustring \<Rightarrow> bool" where
  "nonblank l \<longleftrightarrow> strip l \<noteq> []"












subsection \<open>C8: long headers\<close>



section \<open>Properties of the content normalizer\<close>








lemma is_separator_nonblank: "is_separator (strip l) \<Longrightarrow> nonblank l"
  by (auto simp: is_separator_def nonblank_def)







subsection \<open>C7: separator lines\<close>




end
